theory Spec2Isabelle
  imports Main
begin

section \<open>Python values: strings, exceptions\<close>

text \<open>
  A Python \<^verbatim>\<open>str\<close> is a sequence of Unicode code points, so a string is a list of
  code points and \<^verbatim>\<open>len\<close> is \<open>length\<close>. ASCII literals of the source are written
  with \<open>ustr\<close>.
\<close>

type_synonym ustring = "nat list"

definition ustr :: "string \<Rightarrow> ustring" where
  "ustr s = map of_char s"

text \<open>
  The exceptions the sources raise or let through, each with its message.
  \<^verbatim>\<open>KeyboardInterrupt\<close> and \<^verbatim>\<open>SystemExit\<close> derive from \<^verbatim>\<open>BaseException\<close>, the
  others from \<^verbatim>\<open>Exception\<close>.
\<close>

datatype exn =
    FileNotFoundError ustring
  | ValueError ustring
  | IndexError ustring
  | OpenAIError ustring
  | Exception ustring
  | KeyboardInterrupt
  | SystemExit int

fun is_Exception :: "exn \<Rightarrow> bool" where
  "is_Exception KeyboardInterrupt = False"
| "is_Exception (SystemExit c) = False"
| "is_Exception e = True"

fun exn_str :: "exn \<Rightarrow> ustring" where
  "exn_str (FileNotFoundError m) = m"
| "exn_str (ValueError m) = m"
| "exn_str (IndexError m) = m"
| "exn_str (OpenAIError m) = m"
| "exn_str (Exception m) = m"
| "exn_str KeyboardInterrupt = []"
| "exn_str (SystemExit c) = []"

subsection \<open>\<^verbatim>\<open>str.isspace\<close>, \<^verbatim>\<open>str.strip\<close>, \<^verbatim>\<open>str.isalnum\<close> on ASCII\<close>

text \<open>
  The code points CPython treats as whitespace (\<^verbatim>\<open>_PyUnicode_IsWhitespace\<close>):
  U+0009..U+000D, U+001C..U+0020, U+0085, U+00A0, U+1680, U+2000..U+200A, U+2028,
  U+2029, U+202F, U+205F, U+3000.
\<close>

definition isspace :: "nat \<Rightarrow> bool" where
  "isspace c \<longleftrightarrow>
     (9 \<le> c \<and> c \<le> 13) \<or> (28 \<le> c \<and> c \<le> 32) \<or> c = 133 \<or> c = 160 \<or> c = 5760 \<or>
     (8192 \<le> c \<and> c \<le> 8202) \<or> c = 8232 \<or> c = 8233 \<or> c = 8239 \<or> c = 8287 \<or>
     c = 12288"

definition strip :: "ustring \<Rightarrow> ustring" where
  "strip s = rev (dropWhile isspace (rev (dropWhile isspace s)))"

text \<open>
  \<^verbatim>\<open>c.isalnum()\<close> for an ASCII character \<open>c\<close>: digits and the two cases of letters.
  The source applies it only after every code point from 128 on has been filtered out.
\<close>

definition isalnum :: "nat \<Rightarrow> bool" where
  "isalnum c \<longleftrightarrow> (48 \<le> c \<and> c \<le> 57) \<or> (65 \<le> c \<and> c \<le> 90) \<or> (97 \<le> c \<and> c \<le> 122)"

subsection \<open>\<^verbatim>\<open>str.startswith\<close>, \<^verbatim>\<open>str.split\<close>, \<^verbatim>\<open>str.join\<close>, \<^verbatim>\<open>str(int)\<close>\<close>

definition startswith :: "ustring \<Rightarrow> ustring \<Rightarrow> bool" where
  "startswith s sep \<longleftrightarrow> take (length sep) s = sep"

text \<open>
  \<^verbatim>\<open>s.split(sep)\<close> for a non-empty separator: the occurrences of \<open>sep\<close> are found
  from the left and do not overlap; the result is never empty. (Python raises on an
  empty separator; every separator given to \<open>split\<close> below is a non-empty literal, and
  with an empty one no occurrence is ever found here.)
\<close>

function split :: "ustring \<Rightarrow> ustring \<Rightarrow> ustring list" where
  "split sep [] = [[]]"
| "split sep (c # cs) =
     (if sep \<noteq> [] \<and> startswith (c # cs) sep
      then [] # split sep (drop (length sep) (c # cs))
      else (case split sep cs of [] \<Rightarrow> [[c]] | p # ps \<Rightarrow> (c # p) # ps))"
  by pat_completeness auto
termination
  by (relation "measure (\<lambda>(sep, s). length s)") auto

fun join :: "ustring \<Rightarrow> ustring list \<Rightarrow> ustring" where
  "join sep [] = []"
| "join sep [x] = x"
| "join sep (x # y # ys) = x @ sep @ join sep (y # ys)"

function str_nat :: "nat \<Rightarrow> ustring" where
  "str_nat n = (if n < 10 then [48 + n] else str_nat (n div 10) @ [48 + n mod 10])"
  by pat_completeness auto
termination
  by (relation "measure id") auto

declare str_nat.simps [simp del]

definition str_int :: "int \<Rightarrow> ustring" where
  "str_int i = (if i < 0 then 45 # str_nat (nat (- i)) else str_nat (nat i))"

subsection \<open>\<^verbatim>\<open>pathlib.Path\<close>: \<^verbatim>\<open>name\<close>, \<^verbatim>\<open>stem\<close>, \<^verbatim>\<open>suffix\<close>, \<^verbatim>\<open>str\<close>\<close>

text \<open>
  Paths as \<^verbatim>\<open>PurePosixPath\<close> parses them: the components are the pieces between
  slashes, without the empty ones and without \<^verbatim>\<open>.\<close>; the root is \<^verbatim>\<open>/\<close>, or \<^verbatim>\<open>//\<close>
  for exactly two leading slashes. \<^verbatim>\<open>name\<close> is the last component (empty when there
  is none), and \<^verbatim>\<open>stem\<close> cuts it at its last dot unless that dot is the first or the
  last character of the name.
\<close>

definition path_parts :: "ustring \<Rightarrow> ustring list" where
  "path_parts p = filter (\<lambda>x. x \<noteq> [] \<and> x \<noteq> ustr ''.'') (split (ustr ''/'') p)"

definition path_root :: "ustring \<Rightarrow> ustring" where
  "path_root p =
     (if take 1 p \<noteq> ustr ''/'' then []
      else if take 1 (drop 1 p) \<noteq> ustr ''/'' \<or> take 1 (drop 2 p) = ustr ''/'' then ustr ''/''
      else ustr ''//'')"

definition path_str :: "ustring \<Rightarrow> ustring" where
  "path_str p =
     (let s = path_root p @ join (ustr ''/'') (path_parts p)
      in if s = [] then ustr ''.'' else s)"

definition path_name :: "ustring \<Rightarrow> ustring" where
  "path_name p = (if path_parts p = [] then [] else last (path_parts p))"

definition rfind :: "ustring \<Rightarrow> nat \<Rightarrow> int" where
  "rfind s c =
     (if c \<in> set s then int (length s) - 1 - int (length (takeWhile (\<lambda>x. x \<noteq> c) (rev s)))
      else - 1)"

definition path_stem :: "ustring \<Rightarrow> ustring" where
  "path_stem p =
     (let name = path_name p; i = rfind name 46
      in if 0 < i \<and> i < int (length name) - 1 then take (nat i) name else name)"

definition path_suffix :: "ustring \<Rightarrow> ustring" where
  "path_suffix p =
     (let name = path_name p; i = rfind name 46
      in if 0 < i \<and> i < int (length name) - 1 then drop (nat i) name else [])"

section \<open>\<^verbatim>\<open>pinecone_store.py\<close>: metadata and vector IDs\<close>

datatype pyval = PyStr ustring | PyInt int

text \<open>
  \<^verbatim>\<open>create_metadata\<close> builds a dict literal; it is kept as the list of its items in
  insertion order. \<open>now\<close> is the text \<^verbatim>\<open>datetime.now().isoformat()\<close> returns at the call.
\<close>

definition create_metadata :: "ustring \<Rightarrow> ustring \<Rightarrow> ustring \<Rightarrow> int \<Rightarrow> (string \<times> pyval) list" where
  "create_metadata now text_chunk file_path chunk_index =
     [(''text'', PyStr text_chunk),
      (''source'', PyStr (path_name file_path)),
      (''file_path'', PyStr (path_str file_path)),
      (''chunk_index'', PyInt chunk_index),
      (''chunk_length'', PyInt (int (length text_chunk))),
      (''timestamp'', PyStr now),
      (''document_type'', PyStr (ustr ''word_document''))]"

text \<open>
  \<^verbatim>\<open>generate_vector_id\<close>. \<open>nfd\<close> stands for \<^verbatim>\<open>unicodedata.normalize('NFD', _)\<close>, whose
  tables are not part of the repository. \<open>clean_name\<close> is the value of the source's
  variable of that name after its second assignment.
\<close>

definition clean_name :: "(ustring \<Rightarrow> ustring) \<Rightarrow> ustring \<Rightarrow> ustring" where
  "clean_name nfd file_path =
     (let base_name = path_stem file_path;
          normalized = nfd base_name;
          ascii_name = filter (\<lambda>c. c < 128) normalized;
          replaced = map (\<lambda>c. if isalnum c then c else 95) ascii_name
      in join (ustr ''_'') (filter (\<lambda>x. x \<noteq> []) (split (ustr ''_'') replaced)))"

definition generate_vector_id :: "(ustring \<Rightarrow> ustring) \<Rightarrow> ustring \<Rightarrow> int \<Rightarrow> ustring" where
  "generate_vector_id nfd file_path chunk_index =
     clean_name nfd file_path @ ustr ''_chunk_'' @ str_int chunk_index"

text \<open>
  Canonical decomposition on strings of code points below U+0100: each precomposed
  Latin-1 letter becomes its base letter followed by one combining mark (the canonical
  mappings of UnicodeData for U+00C0..U+00FF); every other code point of that range
  has no canonical decomposition. No string of that range holds a combining mark, so
  canonical reordering changes nothing there. This is the instance of \<open>nfd\<close> used
  for concrete file names.
\<close>

definition latin1_decomposition :: "(nat \<times> nat \<times> nat) list" where
  "latin1_decomposition =
     [(192, 65, 768), (193, 65, 769), (194, 65, 770), (195, 65, 771), (196, 65, 776), (197, 65, 778),
      (199, 67, 807),
      (200, 69, 768), (201, 69, 769), (202, 69, 770), (203, 69, 776),
      (204, 73, 768), (205, 73, 769), (206, 73, 770), (207, 73, 776),
      (209, 78, 771),
      (210, 79, 768), (211, 79, 769), (212, 79, 770), (213, 79, 771), (214, 79, 776),
      (217, 85, 768), (218, 85, 769), (219, 85, 770), (220, 85, 776),
      (221, 89, 769),
      (224, 97, 768), (225, 97, 769), (226, 97, 770), (227, 97, 771), (228, 97, 776), (229, 97, 778),
      (231, 99, 807),
      (232, 101, 768), (233, 101, 769), (234, 101, 770), (235, 101, 776),
      (236, 105, 768), (237, 105, 769), (238, 105, 770), (239, 105, 776),
      (241, 110, 771),
      (242, 111, 768), (243, 111, 769), (244, 111, 770), (245, 111, 771), (246, 111, 776),
      (249, 117, 768), (250, 117, 769), (251, 117, 770), (252, 117, 776),
      (253, 121, 769), (255, 121, 776)]"

definition nfd_latin1 :: "ustring \<Rightarrow> ustring" where
  "nfd_latin1 s =
     concat (map (\<lambda>c. case map_of latin1_decomposition c of
                          None \<Rightarrow> [c] | Some (b, m) \<Rightarrow> [b, m]) s)"

text \<open>The file name of the spec's example: \<^verbatim>\<open>R\<close>, U+00E9, \<^verbatim>\<open>sum\<close>, U+00E9, \<^verbatim>\<open> Final.docx\<close>.\<close>

definition resume_final_docx :: ustring where
  "resume_final_docx = ustr ''R'' @ [233] @ ustr ''sum'' @ [233] @ ustr '' Final.docx''"

section \<open>\<^verbatim>\<open>text_splitter.py\<close>\<close>

text \<open>
  \<^verbatim>\<open>config.py\<close> defines neither \<^verbatim>\<open>CHUNK_SIZE\<close> nor \<^verbatim>\<open>CHUNK_OVERLAP\<close>, so the import
  fails and the module's defaults apply.
\<close>

definition CHUNK_SIZE :: int where
  "CHUNK_SIZE = 1000"

definition CHUNK_OVERLAP :: int where
  "CHUNK_OVERLAP = 200"

definition separators :: "ustring list" where
  "separators =
     [[10, 10], [10], ustr ''. '', ustr ''! '', ustr ''? '', ustr ''; '', ustr '', '', ustr '' '', []]"

subsection \<open>The recursive character splitter\<close>

text \<open>
  Modelled from the spec: \<^verbatim>\<open>RecursiveCharacterTextSplitter\<close> is a class of the
  third-party package the module imports, not of the repository. The definitions of
  this subsection follow section 4.1 of the specification (try the separators in
  priority order, apply the next ones to every fragment that is still too long, the
  empty separator cuts into single characters, merge adjacent fragments into windows
  that share up to the overlap with their predecessor, trim) in the way that
  package's splitter does it, with its defaults (separators kept at the start of the
  fragment that follows them, whitespace stripped from every window): the functions
  are named after its methods.
\<close>

text \<open>\<open>occurs sep text\<close>: the literal \<open>sep\<close> is found somewhere in \<open>text\<close>.\<close>

fun occurs :: "ustring \<Rightarrow> ustring \<Rightarrow> bool" where
  "occurs sep [] = (sep = [])"
| "occurs sep (c # cs) = (startswith (c # cs) sep \<or> occurs sep cs)"

text \<open>
  The loop that chooses the separator: the first one of the list that is empty or
  occurs in the text, with the separators after it (none after the empty one).
  \<open>None\<close> when the loop ends without a \<^verbatim>\<open>break\<close>.
\<close>

fun find_separator :: "ustring \<Rightarrow> ustring list \<Rightarrow> (ustring \<times> ustring list) option" where
  "find_separator text [] = None"
| "find_separator text (s # rest) =
     (if s = [] then Some (s, [])
      else if occurs s text then Some (s, rest)
      else find_separator text rest)"

definition pick_separator :: "ustring \<Rightarrow> ustring list \<Rightarrow> ustring \<times> ustring list" where
  "pick_separator text seps =
     (case find_separator text seps of Some r \<Rightarrow> r | None \<Rightarrow> (last seps, []))"

text \<open>
  Splitting on the chosen separator, the separator kept in front of the fragment
  that follows it; on the empty separator, into single characters. Empty fragments
  are dropped.
\<close>

definition split_text_with_regex :: "ustring \<Rightarrow> ustring \<Rightarrow> ustring list" where
  "split_text_with_regex text separator =
     (let splits =
        (if separator \<noteq> []
         then (case split separator text of
                 [] \<Rightarrow> []
               | t0 # ts \<Rightarrow> t0 # map (\<lambda>t. separator @ t) ts)
         else map (\<lambda>c. [c]) text)
      in filter (\<lambda>s. s \<noteq> []) splits)"

definition join_docs :: "ustring list \<Rightarrow> ustring \<Rightarrow> ustring option" where
  "join_docs docs separator =
     (let text = strip (join separator docs) in if text = [] then None else Some text)"

text \<open>
  The inner loop of \<open>merge_splits\<close>: fragments are popped from the front of the
  current window while it is longer than the overlap, or while the next fragment
  (of length \<open>len\<close>) does not fit; \<open>total_len\<close> is the source's \<^verbatim>\<open>total\<close>. Popping from an empty window is Python's
  \<^verbatim>\<open>IndexError\<close>.
\<close>

fun pop_front :: "int \<Rightarrow> int \<Rightarrow> int \<Rightarrow> int \<Rightarrow> ustring list \<Rightarrow> int \<Rightarrow> exn + (ustring list \<times> int)" where
  "pop_front chunk_size chunk_overlap separator_len len [] total_len =
     (if total_len > chunk_overlap \<or> (total_len + len > chunk_size \<and> total_len > 0)
      then Inl (IndexError (ustr ''list index out of range''))
      else Inr ([], total_len))"
| "pop_front chunk_size chunk_overlap separator_len len (d0 # rest) total_len =
     (if total_len > chunk_overlap \<or> (total_len + len + separator_len > chunk_size \<and> total_len > 0)
      then pop_front chunk_size chunk_overlap separator_len len rest
             (total_len - (int (length d0) + (if length (d0 # rest) > 1 then separator_len else 0)))
      else Inr (d0 # rest, total_len))"

fun merge_loop ::
  "int \<Rightarrow> int \<Rightarrow> ustring \<Rightarrow> ustring list \<Rightarrow> ustring list \<Rightarrow> ustring list \<Rightarrow> int \<Rightarrow> exn + ustring list" where
  "merge_loop chunk_size chunk_overlap separator [] docs current_doc total_len =
     (case join_docs current_doc separator of
        None \<Rightarrow> Inr docs
      | Some doc \<Rightarrow> Inr (docs @ [doc]))"
| "merge_loop chunk_size chunk_overlap separator (d # ds) docs current_doc total_len =
     (let separator_len = int (length separator);
          len = int (length d)
      in case
           (if total_len + len + (if length current_doc > 0 then separator_len else 0) > chunk_size
               \<and> length current_doc > 0
            then (case pop_front chunk_size chunk_overlap separator_len len current_doc total_len of
                    Inl e \<Rightarrow> Inl e
                  | Inr (current_doc', total_len') \<Rightarrow>
                      Inr (case join_docs current_doc separator of
                             None \<Rightarrow> docs
                           | Some doc \<Rightarrow> docs @ [doc],
                           current_doc', total_len'))
            else Inr (docs, current_doc, total_len)) of
           Inl e \<Rightarrow> Inl e
         | Inr (docs', current_doc', total_len') \<Rightarrow>
             merge_loop chunk_size chunk_overlap separator ds docs' (current_doc' @ [d])
               (total_len' + len + (if length (current_doc' @ [d]) > 1 then separator_len else 0)))"

definition merge_splits :: "int \<Rightarrow> int \<Rightarrow> ustring list \<Rightarrow> ustring \<Rightarrow> exn + ustring list" where
  "merge_splits chunk_size chunk_overlap splits separator =
     merge_loop chunk_size chunk_overlap separator splits [] [] 0"

text \<open>
  The loop over the fragments: the short ones are collected and merged, each long one
  is handed to \<open>recurse\<close> (the splitter on the remaining separators) when \<open>deeper\<close>
  holds, that is when separators remain, and is emitted as it is otherwise. Separators are kept in the fragments, so windows
  are joined with the empty string.
\<close>

definition flush_good :: "int \<Rightarrow> int \<Rightarrow> ustring list \<Rightarrow> ustring list \<Rightarrow> exn + ustring list" where
  "flush_good chunk_size chunk_overlap final_chunks good_splits =
     (if good_splits \<noteq> []
      then (case merge_splits chunk_size chunk_overlap good_splits [] of
              Inl e \<Rightarrow> Inl e
            | Inr merged_text \<Rightarrow> Inr (final_chunks @ merged_text))
      else Inr final_chunks)"

fun split_loop ::
  "(ustring \<Rightarrow> exn + ustring list) \<Rightarrow> int \<Rightarrow> int \<Rightarrow> bool \<Rightarrow> ustring list \<Rightarrow> ustring list \<Rightarrow> ustring list
     \<Rightarrow> exn + ustring list" where
  "split_loop recurse chunk_size chunk_overlap deeper [] final_chunks good_splits =
     flush_good chunk_size chunk_overlap final_chunks good_splits"
| "split_loop recurse chunk_size chunk_overlap deeper (s # ss) final_chunks good_splits =
     (if int (length s) < chunk_size
      then split_loop recurse chunk_size chunk_overlap deeper ss final_chunks (good_splits @ [s])
      else (case flush_good chunk_size chunk_overlap final_chunks good_splits of
              Inl e \<Rightarrow> Inl e
            | Inr final_chunks' \<Rightarrow>
                if \<not> deeper
                then split_loop recurse chunk_size chunk_overlap deeper ss (final_chunks' @ [s]) []
                else (case recurse s of
                        Inl e \<Rightarrow> Inl e
                      | Inr other_info \<Rightarrow>
                          split_loop recurse chunk_size chunk_overlap deeper ss
                            (final_chunks' @ other_info) [])))"

lemma split_loop_recurse_eq:
  "(\<And>s. s \<in> set splits \<Longrightarrow> deeper \<Longrightarrow> recurse s = recurse' s) \<Longrightarrow>
   split_loop recurse chunk_size chunk_overlap deeper splits final_chunks good =
   split_loop recurse' chunk_size chunk_overlap deeper splits final_chunks good"
proof (induction splits arbitrary: final_chunks good)
  case Nil
  then show ?case by simp
next
  case (Cons s ss)
  have r: "deeper \<Longrightarrow> recurse s = recurse' s"
    using Cons.prems by simp
  have ih: "split_loop recurse chunk_size chunk_overlap deeper ss f g =
            split_loop recurse' chunk_size chunk_overlap deeper ss f g" for f g
    using Cons.IH Cons.prems by simp
  show ?case
    using r ih by (cases deeper) (simp_all split: sum.splits)
qed

lemma split_loop_cong [fundef_cong]:
  assumes "splits = splits'" "deeper = deeper'" "final_chunks = final_chunks'" "good = good'"
    "chunk_size = chunk_size'" "chunk_overlap = chunk_overlap'"
    "\<And>s. s \<in> set splits' \<Longrightarrow> deeper' \<Longrightarrow> recurse s = recurse' s"
  shows "split_loop recurse chunk_size chunk_overlap deeper splits final_chunks good =
         split_loop recurse' chunk_size' chunk_overlap' deeper' splits' final_chunks' good'"
  unfolding assms(1-6) using assms(7) by (rule split_loop_recurse_eq)

lemma pick_separator_shorter:
  "seps \<noteq> [] \<Longrightarrow> length (snd (pick_separator text seps)) < length seps"
proof -
  have "find_separator text seps = Some (s, rest) \<Longrightarrow> length rest < length seps" for s rest
    by (induction seps) (auto split: if_splits)
  then show "seps \<noteq> [] \<Longrightarrow> length (snd (pick_separator text seps)) < length seps"
    by (cases "find_separator text seps") (auto simp: pick_separator_def)
qed

function split_text_rec :: "int \<Rightarrow> int \<Rightarrow> ustring list \<Rightarrow> ustring \<Rightarrow> exn + ustring list" where
  "split_text_rec chunk_size chunk_overlap seps text =
     (if seps = [] then Inl (IndexError (ustr ''list index out of range''))
      else
        split_loop (\<lambda>s. split_text_rec chunk_size chunk_overlap (snd (pick_separator text seps)) s)
          chunk_size chunk_overlap (snd (pick_separator text seps) \<noteq> [])
          (split_text_with_regex text (fst (pick_separator text seps))) [] [])"
  by pat_completeness auto
termination
  by (relation "measure (\<lambda>(cs, ov, seps, text). length seps)")
     (auto simp: pick_separator_shorter)

declare split_text_rec.simps [simp del]

text \<open>
  The splitter object with its configuration: the constructor refuses an overlap
  larger than the chunk size.
\<close>

definition text_splitter_split_text :: "int \<Rightarrow> int \<Rightarrow> ustring list \<Rightarrow> ustring \<Rightarrow> exn + ustring list" where
  "text_splitter_split_text chunk_size chunk_overlap seps text =
     (if chunk_overlap > chunk_size
      then Inl (ValueError (ustr ''Got a larger chunk overlap than chunk size, should be smaller.''))
      else split_text_rec chunk_size chunk_overlap seps text)"

subsection \<open>\<^verbatim>\<open>split_text\<close>\<close>

text \<open>
  \<^verbatim>\<open>except Exception as e: raise Exception(...)\<close>: an exception deriving from
  \<^verbatim>\<open>Exception\<close> is replaced by an \<^verbatim>\<open>Exception\<close> with the prefixed message, any other is
  let through.
\<close>

definition reraise :: "ustring \<Rightarrow> exn \<Rightarrow> exn" where
  "reraise prefix e = (if is_Exception e then Exception (prefix @ exn_str e) else e)"

text \<open>
  \<^verbatim>\<open>split_text\<close> of the repository, over the library's splitter \<open>splitter\<close> as it is
  configured in the \<^verbatim>\<open>try\<close> block.
\<close>

definition split_text_with :: "(ustring \<Rightarrow> exn + ustring list) \<Rightarrow> ustring \<Rightarrow> exn + ustring list" where
  "split_text_with splitter document_text =
     (if document_text = [] \<or> strip document_text = []
      then Inl (ValueError (ustr ''Document text cannot be empty''))
      else
        (case
           (case splitter document_text of
              Inl e \<Rightarrow> Inl e
            | Inr chunks \<Rightarrow>
                (let cleaned_chunks = map strip (filter (\<lambda>chunk. strip chunk \<noteq> []) chunks)
                 in if cleaned_chunks = []
                    then Inl (ValueError (ustr ''No valid chunks created from document text''))
                    else Inr cleaned_chunks)) of
           Inl e \<Rightarrow> Inl (reraise (ustr ''Error splitting text: '') e)
         | Inr cleaned_chunks \<Rightarrow> Inr cleaned_chunks))"

definition split_text :: "ustring \<Rightarrow> exn + ustring list" where
  "split_text document_text =
     split_text_with (text_splitter_split_text CHUNK_SIZE CHUNK_OVERLAP separators) document_text"

section \<open>\<^verbatim>\<open>document_reader.py\<close>\<close>

text \<open>
  What lies outside the repository is an argument: \<open>file_exists\<close> is the answer of
  \<^verbatim>\<open>file_path.exists()\<close>, and \<open>document\<close> is what \<^verbatim>\<open>Document(file_path)\<close> gives, the
  \<^verbatim>\<open>text\<close> of each paragraph in order, or the exception it raises. The handler lets
  \<^verbatim>\<open>FileNotFoundError\<close> and \<^verbatim>\<open>ValueError\<close> through and wraps every other \<^verbatim>\<open>Exception\<close>.
\<close>

definition read_document :: "bool \<Rightarrow> exn + ustring list \<Rightarrow> ustring \<Rightarrow> exn + ustring" where
  "read_document file_exists document file_path =
     (case
        (if \<not> file_exists
         then Inl (FileNotFoundError (ustr ''Document not found: '' @ path_str file_path))
         else (case document of
                 Inl e \<Rightarrow> Inl e
               | Inr paragraphs \<Rightarrow>
                   (let text_content = filter (\<lambda>text. text \<noteq> []) (map strip paragraphs);
                        full_text = join [10] text_content
                    in if strip full_text = []
                       then Inl (ValueError (ustr ''No text content found in document: ''
                                               @ path_name file_path))
                       else Inr full_text))) of
        Inl e \<Rightarrow>
          Inl (case e of
                 FileNotFoundError m \<Rightarrow> e
               | ValueError m \<Rightarrow> e
               | _ \<Rightarrow> reraise (ustr ''Error reading document '' @ path_name file_path @ ustr '': '') e)
      | Inr full_text \<Rightarrow> Inr full_text)"

section \<open>\<^verbatim>\<open>embedding_generator.py\<close>\<close>


section \<open>\<^verbatim>\<open>pinecone_store.py\<close>: storing\<close>







section \<open>\<^verbatim>\<open>run.py\<close>\<close>








section \<open>Facts about the string operations\<close>

lemma str_nat_digits: "set (str_nat n) \<subseteq> {48..57}"
proof (induction n rule: str_nat.induct)
  case (1 n)
  show ?case
  proof (cases "n < 10")
    case True
    then show ?thesis by (subst str_nat.simps) simp
  next
    case False
    have "n mod 10 < 10" by simp
    then have "48 + n mod 10 \<in> {48..57}" by simp
    with False 1 show ?thesis by (subst str_nat.simps) simp
  qed
qed

lemma str_nat_nonempty: "str_nat n \<noteq> []"
  by (subst str_nat.simps) simp

lemma str_nat_length: "length (str_nat n) = Suc 0 \<longleftrightarrow> n < 10"
proof (cases "n < 10")
  case True
  then show ?thesis by (subst str_nat.simps) simp
next
  case False
  have "str_nat (n div 10) \<noteq> []" by (rule str_nat_nonempty)
  with False show ?thesis by (subst str_nat.simps) simp
qed

lemma str_nat_inj: "str_nat m = str_nat n \<Longrightarrow> m = n"
proof (induction m arbitrary: n rule: str_nat.induct)
  case (1 m)
  show ?case
  proof (cases "m < 10")
    case True
    then have "length (str_nat n) = Suc 0" using "1.prems" str_nat_length[of m] by simp
    then have "n < 10" by (simp add: str_nat_length)
    with True "1.prems" show ?thesis by (simp add: str_nat.simps[of m] str_nat.simps[of n])
  next
    case False
    then have "length (str_nat n) \<noteq> Suc 0" using "1.prems" str_nat_length[of m] by simp
    then have n: "\<not> n < 10" by (simp add: str_nat_length)
    from False n "1.prems" have "str_nat (m div 10) @ [48 + m mod 10] = str_nat (n div 10) @ [48 + n mod 10]"
      by (simp add: str_nat.simps[of m] str_nat.simps[of n])
    then have a: "str_nat (m div 10) = str_nat (n div 10)" and b: "m mod 10 = n mod 10" by auto
    from "1.IH"[OF False a] have "m div 10 = n div 10" .
    with b show ?thesis by (metis div_mult_mod_eq)
  qed
qed

lemma str_int_inj: "str_int i = str_int j \<Longrightarrow> i = j"
proof -
  assume h: "str_int i = str_int j"
  have nd: "\<And>n. hd (str_nat n) \<noteq> 45"
  proof -
    fix n
    have "str_nat n \<noteq> []" by (rule str_nat_nonempty)
    then have "hd (str_nat n) \<in> set (str_nat n)" by simp
    with str_nat_digits[of n] show "hd (str_nat n) \<noteq> 45" by auto
  qed
  show ?thesis
  proof (cases "i < 0")
    case True
    show ?thesis
    proof (cases "j < 0")
      case j: True
      with True h have "str_nat (nat (- i)) = str_nat (nat (- j))" by (simp add: str_int_def)
      then have "nat (- i) = nat (- j)" by (rule str_nat_inj)
      with True j show ?thesis by simp
    next
      case j: False
      with True h have "45 # str_nat (nat (- i)) = str_nat (nat j)" by (simp add: str_int_def)
      then have "hd (str_nat (nat j)) = 45" by (metis list.sel(1))
      with nd show ?thesis by blast
    qed
  next
    case False
    show ?thesis
    proof (cases "j < 0")
      case j: True
      with False h have "str_nat (nat i) = 45 # str_nat (nat (- j))" by (simp add: str_int_def)
      then have "hd (str_nat (nat i)) = 45" by simp
      with nd show ?thesis by blast
    next
      case j: False
      with False h have "str_nat (nat i) = str_nat (nat j)" by (simp add: str_int_def)
      then have "nat i = nat j" by (rule str_nat_inj)
      with False j show ?thesis by simp
    qed
  qed
qed

lemma str_int_chars: "set (str_int i) \<subseteq> insert 45 {48..57}"
  using str_nat_digits by (auto simp: str_int_def)

lemma str_int_nonneg_digits: "0 \<le> i \<Longrightarrow> set (str_int i) \<subseteq> {48..57}"
  using str_nat_digits by (auto simp: str_int_def)

lemma split_nonempty: "split sep s \<noteq> []"
  by (induction sep s rule: split.induct) (auto split: list.splits)

lemma split_pieces_subset: "p \<in> set (split sep s) \<Longrightarrow> set p \<subseteq> set s"
proof (induction sep s arbitrary: p rule: split.induct)
  case (1 sep)
  then show ?case by simp
next
  case (2 sep c cs)
  show ?case
  proof (cases "sep \<noteq> [] \<and> startswith (c # cs) sep")
    case True
    with 2 have "p = [] \<or> p \<in> set (split sep (drop (length sep) (c # cs)))" by auto
    then show ?thesis
    proof
      assume "p = []" then show ?thesis by simp
    next
      assume "p \<in> set (split sep (drop (length sep) (c # cs)))"
      with 2(1) True have "set p \<subseteq> set (drop (length sep) (c # cs))" by blast
      also have "\<dots> \<subseteq> set (c # cs)" by (rule set_drop_subset)
      finally show ?thesis .
    qed
  next
    case False
    obtain q qs where q: "split sep cs = q # qs" using split_nonempty by (cases "split sep cs") auto
    with False 2(3) have "p = c # q \<or> p \<in> set qs" by auto
    then show ?thesis
    proof
      assume "p = c # q"
      moreover have "set q \<subseteq> set cs" using 2(2)[OF False, of q] q by simp
      ultimately show ?thesis by auto
    next
      assume "p \<in> set qs"
      then have "set p \<subseteq> set cs" using 2(2)[OF False, of p] q by simp
      then show ?thesis by auto
    qed
  qed
qed

lemma set_join: "set (join sep xs) \<subseteq> set sep \<union> \<Union> (set ` set xs)"
  by (induction sep xs rule: join.induct) auto

lemma clean_name_chars: "set (clean_name nfd p) \<subseteq> {c. isalnum c \<or> c = 95}"
proof -
  define r where "r = map (\<lambda>c. if isalnum c then c else 95) (filter (\<lambda>c. c < 128) (nfd (path_stem p)))"
  have r: "set r \<subseteq> {c. isalnum c \<or> c = 95}" by (auto simp: r_def)
  have "set (clean_name nfd p) \<subseteq> set (ustr ''_'') \<union> \<Union> (set ` set (filter (\<lambda>x. x \<noteq> []) (split (ustr ''_'') r)))"
    unfolding clean_name_def Let_def r_def by (rule set_join)
  also have "\<dots> \<subseteq> {95} \<union> set r"
    using split_pieces_subset by (auto simp: ustr_def)
  finally show ?thesis using r by auto
qed

lemma last_sep_unique:
  assumes "a @ c # s = b @ c # t" "c \<notin> set s" "c \<notin> set t"
  shows "a = b \<and> s = t"
proof -
  from assms(1) have "rev s @ c # rev a = rev t @ c # rev b" 
    by (metis rev.simps(2) rev_append append_assoc append_Cons append_Nil)
  then have eq: "rev s @ [c] @ rev a = rev t @ [c] @ rev b" by simp
  have "takeWhile (\<lambda>x. x \<noteq> c) (rev s @ [c] @ rev a) = rev s" 
    using assms(2) by (auto simp: takeWhile_tail[of "\<lambda>x. x \<noteq> c"])
  moreover have "takeWhile (\<lambda>x. x \<noteq> c) (rev t @ [c] @ rev b) = rev t" 
    using assms(3) by (auto simp: takeWhile_tail[of "\<lambda>x. x \<noteq> c"])
  ultimately have "rev s = rev t" using eq by simp
  then have st: "s = t" by simp
  with assms(1) show ?thesis by simp
qed

lemma vector_id_eq_iff:
  "generate_vector_id nfd p i = generate_vector_id nfd q j \<longleftrightarrow>
     clean_name nfd p = clean_name nfd q \<and> i = j"
proof
  assume h: "generate_vector_id nfd p i = generate_vector_id nfd q j"
  have u: "ustr ''_chunk_'' = ustr ''_chunk'' @ [95]" by (simp add: ustr_def)
  have ni: "95 \<notin> set (str_int i)" using str_int_chars[of i] by auto
  have nj: "95 \<notin> set (str_int j)" using str_int_chars[of j] by auto
  from h have "(clean_name nfd p @ ustr ''_chunk'') @ 95 # str_int i = (clean_name nfd q @ ustr ''_chunk'') @ 95 # str_int j"
    by (simp add: generate_vector_id_def u)
  from last_sep_unique[OF this ni nj] have "clean_name nfd p = clean_name nfd q" "str_int i = str_int j" by auto
  then show "clean_name nfd p = clean_name nfd q \<and> i = j" using str_int_inj by blast
next
  assume "clean_name nfd p = clean_name nfd q \<and> i = j"
  then show "generate_vector_id nfd p i = generate_vector_id nfd q j" by (simp add: generate_vector_id_def)
qed


section \<open>Properties of the vector ID, the metadata and the pipeline\<close>


text \<open>The text that \<^verbatim>\<open>read_document\<close> returns for the paragraphs of \<open>example_env\<close>.\<close>

definition hello_world :: ustring where
  "hello_world = ustr ''Hello'' @ [10] @ ustr ''World''"

subsection \<open>Concrete strings, paths and names\<close>

lemmas eval_defs = ustr_def strip_def isspace_def isalnum_def startswith_def path_parts_def path_root_def
  path_str_def path_name_def path_stem_def path_suffix_def rfind_def Let_def

lemma str_int_0: "str_int 0 = ustr ''0''"
  by (simp add: str_int_def str_nat.simps[of 0] ustr_def)

lemma str_int_1: "str_int 1 = ustr ''1''"
  by (simp add: str_int_def str_nat.simps[of "Suc 0"] ustr_def)

lemma str_int_minus_1: "str_int (- 1) = ustr ''-1''"
  by (simp add: str_int_def str_nat.simps[of "Suc 0"] ustr_def)

lemma strip_blank: "strip (ustr ''   '') = []"
  by (simp add: eval_defs)

lemma path_stem_empty: "path_stem [] = []"
  by (simp add: eval_defs)

lemma clean_name_empty: "nfd [] = [] \<Longrightarrow> clean_name nfd [] = []"
  by (simp add: clean_name_def path_stem_empty)

lemma nfd_latin1_report: "nfd_latin1 (ustr ''report'') = ustr ''report''"
  by (simp add: nfd_latin1_def latin1_decomposition_def ustr_def)

lemma clean_name_of_report: "clean_name nfd_latin1 (ustr ''report'') = ustr ''report''"
proof -
  have s: "path_stem (ustr ''report'') = ustr ''report''" by (simp add: eval_defs)
  show ?thesis
    unfolding clean_name_def Let_def s nfd_latin1_report
    by (simp add: ustr_def isalnum_def startswith_def)
qed

lemma clean_name_by_stem: "path_stem p = path_stem q \<Longrightarrow> clean_name nfd p = clean_name nfd q"
  by (simp add: clean_name_def)

lemma clean_name_report_docx: "clean_name nfd_latin1 (ustr ''report.docx'') = ustr ''report''"
proof -
  have "path_stem (ustr ''report.docx'') = path_stem (ustr ''report'')" by (simp add: eval_defs)
  then have "clean_name nfd_latin1 (ustr ''report.docx'') = clean_name nfd_latin1 (ustr ''report'')"
    by (rule clean_name_by_stem)
  then show ?thesis by (simp only: clean_name_of_report)
qed

lemma clean_name_report_doc: "clean_name nfd_latin1 (ustr ''report.doc'') = ustr ''report''"
proof -
  have "path_stem (ustr ''report.doc'') = path_stem (ustr ''report'')" by (simp add: eval_defs)
  then have "clean_name nfd_latin1 (ustr ''report.doc'') = clean_name nfd_latin1 (ustr ''report'')"
    by (rule clean_name_by_stem)
  then show ?thesis by (simp only: clean_name_of_report)
qed

lemma clean_name_x_report_docx: "clean_name nfd_latin1 (ustr ''x/report.docx'') = ustr ''report''"
proof -
  have "path_stem (ustr ''x/report.docx'') = path_stem (ustr ''report'')" by (simp add: eval_defs)
  then have "clean_name nfd_latin1 (ustr ''x/report.docx'') = clean_name nfd_latin1 (ustr ''report'')"
    by (rule clean_name_by_stem)
  then show ?thesis by (simp only: clean_name_of_report)
qed

lemma clean_name_y_report_docx: "clean_name nfd_latin1 (ustr ''y/report.docx'') = ustr ''report''"
proof -
  have "path_stem (ustr ''y/report.docx'') = path_stem (ustr ''report'')" by (simp add: eval_defs)
  then have "clean_name nfd_latin1 (ustr ''y/report.docx'') = clean_name nfd_latin1 (ustr ''report'')"
    by (rule clean_name_by_stem)
  then show ?thesis by (simp only: clean_name_of_report)
qed

lemma clean_name_a_docx: "clean_name nfd_latin1 (ustr ''a.docx'') = ustr ''a''"
proof -
  have s: "path_stem (ustr ''a.docx'') = ustr ''a''" by (simp add: eval_defs)
  have n: "nfd_latin1 (ustr ''a'') = ustr ''a''"
    by (simp add: nfd_latin1_def latin1_decomposition_def ustr_def)
  show ?thesis
    unfolding clean_name_def Let_def s n
    by (simp add: ustr_def isalnum_def startswith_def)
qed

lemma clean_name_resume_final: "clean_name nfd_latin1 resume_final_docx = ustr ''Resume_Final''"
proof -
  have s: "path_stem resume_final_docx = [82, 233, 115, 117, 109, 233, 32, 70, 105, 110, 97, 108]"
    by (simp add: resume_final_docx_def eval_defs)
  have n: "nfd_latin1 [82, 233, 115, 117, 109, 233, 32, 70, 105, 110, 97, 108]
           = [82, 101, 769, 115, 117, 109, 101, 769, 32, 70, 105, 110, 97, 108]"
    by (simp add: nfd_latin1_def latin1_decomposition_def)
  show ?thesis
    unfolding clean_name_def Let_def s n
    by (simp add: ustr_def isalnum_def startswith_def)
qed

subsection \<open>Concrete runs\<close>


lemma read_document_Inr_iff:
  "read_document file_exists document file_path = Inr full_text \<longleftrightarrow>
     file_exists \<and> (\<exists>paragraphs. document = Inr paragraphs
        \<and> full_text = join [10] (filter (\<lambda>text. text \<noteq> []) (map strip paragraphs))
        \<and> strip full_text \<noteq> [])"
proof (cases file_exists)
  case False
  then show ?thesis by (simp add: read_document_def)
next
  case True
  show ?thesis
  proof (cases document)
    case (Inl e)
    then show ?thesis by (simp add: read_document_def True)
  next
    case (Inr paragraphs)
    then show ?thesis by (simp add: read_document_def True Let_def) blast
  qed
qed

lemma read_document_example:
  "read_document True (Inr [ustr '' Hello '', ustr ''  '', ustr ''World'']) (ustr ''a.docx'') = Inr hello_world"
  by (simp add: read_document_def hello_world_def eval_defs)





lemma path_str_a_docx: "path_str (ustr ''a.docx'') = ustr ''a.docx''"
  by (simp add: eval_defs)




subsection \<open>\<open>strip\<close>, \<open>split\<close>, \<open>join\<close> and \<open>occurs\<close>\<close>

lemma strip_eq_Nil_iff: "strip s = [] \<longleftrightarrow> (\<forall>c \<in> set s. isspace c)"
proof -
  have "set (dropWhile isspace s) \<subseteq> set s" by (auto dest: set_dropWhileD)
  moreover have "\<And>x. x \<in> set s \<Longrightarrow> \<not> isspace x \<Longrightarrow> dropWhile isspace s \<noteq> []"
    by (auto simp: dropWhile_eq_Nil_conv)
  moreover have "\<And>x. x \<in> set s \<Longrightarrow> \<not> isspace x \<Longrightarrow> \<exists>y \<in> set (dropWhile isspace s). \<not> isspace y"
    by (metis dropWhile_eq_Nil_conv hd_dropWhile hd_in_set)
  ultimately show ?thesis
    unfolding strip_def by (auto simp: dropWhile_eq_Nil_conv)
qed

lemma set_strip: "set (strip s) \<subseteq> set s"
proof -
  have "set (strip s) = set (dropWhile isspace (rev (dropWhile isspace s)))" by (simp add: strip_def)
  also have "\<dots> \<subseteq> set (rev (dropWhile isspace s))" by (auto dest: set_dropWhileD)
  also have "\<dots> \<subseteq> set s" by (auto dest: set_dropWhileD)
  finally show ?thesis .
qed

lemma length_strip: "length (strip s) \<le> length s"
proof -
  have "length (strip s) \<le> length (dropWhile isspace s)"
    unfolding strip_def using length_dropWhile_le[of isspace "rev (dropWhile isspace s)"] by simp
  also have "\<dots> \<le> length s" by (rule length_dropWhile_le)
  finally show ?thesis .
qed

lemma strip_ends: "strip s \<noteq> [] \<Longrightarrow> \<not> isspace (hd (strip s)) \<and> \<not> isspace (last (strip s))"
proof -
  assume n: "strip s \<noteq> []"
  define a where "a = dropWhile isspace s"
  define b where "b = dropWhile isspace (rev a)"
  have s: "strip s = rev b" by (simp add: strip_def a_def b_def)
  from n s have b: "b \<noteq> []" by simp
  then have "\<not> isspace (hd b)" unfolding b_def by (rule hd_dropWhile)
  then have l: "\<not> isspace (last (strip s))" using b by (simp add: s last_rev)
  have a: "a \<noteq> []" using b by (auto simp: b_def)
  then have ha: "\<not> isspace (hd a)" unfolding a_def by (rule hd_dropWhile)
  have "rev a = takeWhile isspace (rev a) @ b" by (simp add: b_def)
  then have "a = rev b @ rev (takeWhile isspace (rev a))" by (metis rev_append rev_rev_ident)
  then have "hd a = hd (rev b @ rev (takeWhile isspace (rev a)))" by simp
  also have "\<dots> = hd (rev b)" using b by simp
  finally have "\<not> isspace (hd (strip s))" using ha by (simp add: s)
  with l show ?thesis by simp
qed

lemma strip_fixed: "s \<noteq> [] \<Longrightarrow> \<not> isspace (hd s) \<Longrightarrow> \<not> isspace (last s) \<Longrightarrow> strip s = s"
proof -
  assume n: "s \<noteq> []" and h: "\<not> isspace (hd s)" and l: "\<not> isspace (last s)"
  from n h have a: "dropWhile isspace s = s" by (cases s) simp_all
  from n l have "dropWhile isspace (rev s) = rev s" by (cases "rev s") (simp_all add: hd_rev)
  with a show ?thesis by (simp add: strip_def)
qed

lemma strip_strip: "strip (strip s) = strip s"
proof (cases "strip s = []")
  case True
  have "strip [] = []" by (simp add: strip_def)
  with True show ?thesis by simp
next
  case False
  then show ?thesis using strip_ends[OF False] by (simp add: strip_fixed)
qed

lemma join_Cons_Cons: "join sep ((c # p) # ps) = c # join sep (p # ps)"
  by (cases ps) simp_all

lemma join_split: "join sep (split sep s) = s"
proof (induction sep s rule: split.induct)
  case (1 sep)
  then show ?case by simp
next
  case (2 sep c cs)
  show ?case
  proof (cases "sep \<noteq> [] \<and> startswith (c # cs) sep")
    case True
    obtain r rs where r: "split sep (drop (length sep) (c # cs)) = r # rs"
      using split_nonempty[of sep "drop (length sep) (c # cs)"] by (cases "split sep (drop (length sep) (c # cs))") auto
    have "join sep ([] # r # rs) = sep @ join sep (r # rs)" by simp
    also have "\<dots> = sep @ drop (length sep) (c # cs)" using 2(1)[OF True] r by simp
    also have "\<dots> = c # cs" using True by (metis append_take_drop_id startswith_def)
    finally show ?thesis using True r by simp
  next
    case False
    obtain p ps where p: "split sep cs = p # ps"
      using split_nonempty[of sep cs] by (cases "split sep cs") auto
    have "join sep ((c # p) # ps) = c # join sep (p # ps)" by (rule join_Cons_Cons)
    also have "\<dots> = c # cs" using 2(2)[OF False] p by simp
    finally show ?thesis using False p by auto
  qed
qed

lemma split_no_sep: "c \<notin> set p \<Longrightarrow> split [c] p = [p]"
  by (induction p) (auto simp: startswith_def)

lemma split_append_sep: "c \<notin> set p \<Longrightarrow> split [c] (p @ c # r) = p # split [c] r"
  by (induction p) (auto simp: startswith_def)

lemma split_join_lines:
  "ps \<noteq> [] \<Longrightarrow> \<forall>p \<in> set ps. c \<notin> set p \<Longrightarrow> split [c] (join [c] ps) = ps"
proof (induction "[c]" ps rule: join.induct)
  case 1
  then show ?case by simp
next
  case (2 x)
  then show ?case by (simp add: split_no_sep)
next
  case (3 x y ys)
  then show ?case by (simp add: split_append_sep)
qed

lemma hd_join: "x \<noteq> [] \<Longrightarrow> hd (join sep (x # xs)) = hd x"
  by (cases xs) simp_all

lemma occurs_pair_member: "occurs [a, b] s \<Longrightarrow> a \<in> set s"
  by (induction s) (auto simp: startswith_def)

lemma occurs_pair_append:
  "a \<notin> set p \<Longrightarrow> occurs [a, a] (p @ a # r) \<longleftrightarrow> startswith (a # r) [a, a] \<or> occurs [a, a] r"
  by (induction p) (auto simp: startswith_def)

lemma no_double_sep_in_join:
  "\<forall>p \<in> set ps. p \<noteq> [] \<and> c \<notin> set p \<Longrightarrow> \<not> occurs [c, c] (join [c] ps)"
proof (induction "[c]" ps rule: join.induct)
  case 1
  then show ?case by simp
next
  case (2 x)
  then show ?case using occurs_pair_member[of c c x] by auto
next
  case (3 x y ys)
  have y: "y \<noteq> []" "c \<notin> set y" using 3(2) by simp_all
  then have "hd (join [c] (y # ys)) \<noteq> c"
    using hd_join[of y "[c]" ys] by (metis hd_in_set)
  moreover have "join [c] (y # ys) \<noteq> []" using y by (cases ys) simp_all
  ultimately have "\<not> startswith (c # join [c] (y # ys)) [c, c]"
    by (cases "join [c] (y # ys)") (simp_all add: startswith_def)
  moreover have "\<not> occurs [c, c] (join [c] (y # ys))" using 3 by simp
  moreover have "c \<notin> set x" using 3(2) by simp
  ultimately show ?case by (simp add: occurs_pair_append)
qed

text \<open>
  Claim C8. For every chunk text, source path and chunk index, \<^verbatim>\<open>create_metadata\<close> returns
  a dict with exactly the keys text, source, file_path, chunk_index, chunk_length,
  timestamp and document_type, in which chunk_length is the number of characters of the
  chunk text, text is the chunk text, chunk_index the given index and source the base
  name of the file; the timestamp is whatever the clock gave at the call.
\<close>

theorem create_metadata_fixed_shape:
  "map fst (create_metadata now text_chunk file_path chunk_index) =
     [''text'', ''source'', ''file_path'', ''chunk_index'', ''chunk_length'', ''timestamp'',
      ''document_type'']
   \<and> map_of (create_metadata now text_chunk file_path chunk_index) ''chunk_length'' =
       Some (PyInt (int (length text_chunk)))
   \<and> map_of (create_metadata now text_chunk file_path chunk_index) ''text'' =
       Some (PyStr text_chunk)
   \<and> map_of (create_metadata now text_chunk file_path chunk_index) ''chunk_index'' =
       Some (PyInt chunk_index)
   \<and> map_of (create_metadata now text_chunk file_path chunk_index) ''source'' =
       Some (PyStr (path_name file_path))
   \<and> map_of (create_metadata now text_chunk file_path chunk_index) ''timestamp'' =
       Some (PyStr now)"
  by (simp add: create_metadata_def)

text \<open>
  The same at a concrete chunk of the file \<^verbatim>\<open>docs/a.docx\<close>.
\<close>

theorem create_metadata_fixed_shape_witness:
  "map_of (create_metadata (ustr ''2024-01-01T00:00:00'') (ustr ''hello'') (ustr ''docs/a.docx'') 3)
     ''source'' = Some (PyStr (ustr ''a.docx''))
   \<and> map_of (create_metadata (ustr ''2024-01-01T00:00:00'') (ustr ''hello'') (ustr ''docs/a.docx'') 3)
     ''chunk_length'' = Some (PyInt 5)"
proof -
  have n: "path_name (ustr ''docs/a.docx'') = ustr ''a.docx''" by (simp add: eval_defs)
  have l: "length (ustr ''hello'') = 5" by (simp add: ustr_def)
  show ?thesis
    using create_metadata_fixed_shape
      [of "ustr ''2024-01-01T00:00:00''" "ustr ''hello''" "ustr ''docs/a.docx''" 3]
    by (simp add: n l)
qed

text \<open>
  Claim C1 says that the ID holds only characters of \<^verbatim>\<open>[A-Za-z0-9_]\<close> for every source
  name and every chunk index. \<^verbatim>\<open>generate_vector_id\<close> has no check on the index and
  formats it as it is: for the file \<^verbatim>\<open>a.docx\<close> and the index \<open>-1\<close> the ID is
  \<^verbatim>\<open>a_chunk_-1\<close>, which holds a minus sign.
\<close>

theorem generate_vector_id_negative_index:
  "generate_vector_id nfd_latin1 (ustr ''a.docx'') (- 1) = ustr ''a_chunk_-1''
   \<and> \<not> set (generate_vector_id nfd_latin1 (ustr ''a.docx'') (- 1)) \<subseteq> {c. isalnum c \<or> c = 95}"
proof -
  have e: "generate_vector_id nfd_latin1 (ustr ''a.docx'') (- 1) = ustr ''a_chunk_-1''"
    by (simp add: generate_vector_id_def clean_name_a_docx str_int_minus_1) (simp add: ustr_def)
  have "\<not> set (ustr ''a_chunk_-1'') \<subseteq> {c. isalnum c \<or> c = 95}"
    by (simp add: ustr_def isalnum_def)
  with e show ?thesis by simp
qed

text \<open>
  Claim C1, as the code has it: for every source name and every chunk index that is not
  negative (the indices the pipeline passes are positions of \<^verbatim>\<open>enumerate\<close> and
  \<^verbatim>\<open>range\<close>), the ID of \<^verbatim>\<open>generate_vector_id\<close> holds only characters of
  \<^verbatim>\<open>[A-Za-z0-9_]\<close>. For every source name and every index, negative or not, equal
  arguments give equal IDs (the function reads no clock and no random source: \<^verbatim>\<open>uuid\<close> is
  imported and never used) and two different indices of one source give different IDs.
  The IDs of the example file name for the indices 0 and 1 are \<^verbatim>\<open>Resume_Final\<close> followed
  by \<^verbatim>\<open>_chunk_0\<close> and \<^verbatim>\<open>_chunk_1\<close>.
\<close>

theorem generate_vector_id_ascii_stable_distinct:
  "(0 \<le> i \<longrightarrow> set (generate_vector_id nfd p i) \<subseteq> {c. isalnum c \<or> c = 95})
   \<and> (p = q \<and> i = j \<longrightarrow> generate_vector_id nfd p i = generate_vector_id nfd q j)
   \<and> (i \<noteq> j \<longrightarrow> generate_vector_id nfd p i \<noteq> generate_vector_id nfd p j)
   \<and> generate_vector_id nfd_latin1 resume_final_docx 0 = ustr ''Resume_Final'' @ ustr ''_chunk_0''
   \<and> generate_vector_id nfd_latin1 resume_final_docx 1 = ustr ''Resume_Final'' @ ustr ''_chunk_1''"
proof -
  have chars: "set (generate_vector_id nfd p i) \<subseteq> {c. isalnum c \<or> c = 95}" if "0 \<le> i"
  proof -
    have "set (ustr ''_chunk_'') \<subseteq> {c. isalnum c \<or> c = 95}"
      by (simp add: ustr_def isalnum_def)
    moreover have "set (str_int i) \<subseteq> {c. isalnum c \<or> c = 95}"
      using str_int_nonneg_digits[OF that] by (auto simp: isalnum_def)
    ultimately show ?thesis
      using clean_name_chars[of nfd p] by (auto simp: generate_vector_id_def)
  qed
  have e0: "generate_vector_id nfd_latin1 resume_final_docx 0 = ustr ''Resume_Final'' @ ustr ''_chunk_0''"
    by (simp add: generate_vector_id_def clean_name_resume_final str_int_0) (simp add: ustr_def)
  have e1: "generate_vector_id nfd_latin1 resume_final_docx 1 = ustr ''Resume_Final'' @ ustr ''_chunk_1''"
    by (simp add: generate_vector_id_def clean_name_resume_final str_int_1) (simp add: ustr_def)
  show ?thesis
    using chars e0 e1 by (simp add: vector_id_eq_iff)
qed

theorem generate_vector_id_ascii_stable_distinct_witness:
  "(0::int) \<le> 0 \<and> (0::int) \<noteq> 1
   \<and> set (generate_vector_id nfd_latin1 resume_final_docx 0) \<subseteq> {c. isalnum c \<or> c = 95}
   \<and> generate_vector_id nfd_latin1 resume_final_docx 0 \<noteq> generate_vector_id nfd_latin1 resume_final_docx 1"
proof -
  note t = generate_vector_id_ascii_stable_distinct
    [where i = 0 and j = 1 and nfd = nfd_latin1 and p = resume_final_docx and q = resume_final_docx]
  have z: "(0::int) \<le> 0" and nz: "(0::int) \<noteq> 1" by simp_all
  from t z have a: "set (generate_vector_id nfd_latin1 resume_final_docx 0) \<subseteq> {c. isalnum c \<or> c = 95}"
    by blast
  from t nz have b: "generate_vector_id nfd_latin1 resume_final_docx 0 \<noteq>
      generate_vector_id nfd_latin1 resume_final_docx 1"
    by blast
  from z nz a b show ?thesis by blast
qed

text \<open>
  Claim C2 says that the ID is different for any two pairs that differ in the source
  document or in the index, and the docstring of \<^verbatim>\<open>generate_vector_id\<close> promises the same
  (\<^verbatim>\<open>Generate a unique ID for a vector\<close>, \<^verbatim>\<open>Returns: str: Unique vector ID\<close>; the caller's
  comment is \<^verbatim>\<open>Generate unique ID for this vector\<close>). The code does not keep it: the
  directory and the extension are cut off before the ID is built, so the two documents
  \<^verbatim>\<open>report.docx\<close> and \<^verbatim>\<open>report.doc\<close>, and the two documents \<^verbatim>\<open>x/report.docx\<close> and
  \<^verbatim>\<open>y/report.docx\<close>, all get the ID \<^verbatim>\<open>report_chunk_0\<close> for their chunk 0, and the upsert
  of one overwrites the vectors of the other.
\<close>

theorem vector_id_collision:
  "ustr ''report.docx'' \<noteq> ustr ''report.doc''
   \<and> generate_vector_id nfd_latin1 (ustr ''report.docx'') 0 = ustr ''report_chunk_0''
   \<and> generate_vector_id nfd_latin1 (ustr ''report.doc'') 0 = ustr ''report_chunk_0''
   \<and> ustr ''x/report.docx'' \<noteq> ustr ''y/report.docx''
   \<and> generate_vector_id nfd_latin1 (ustr ''x/report.docx'') 0 = ustr ''report_chunk_0''
   \<and> generate_vector_id nfd_latin1 (ustr ''y/report.docx'') 0 = ustr ''report_chunk_0''"
proof -
  have a: "ustr ''report.docx'' \<noteq> ustr ''report.doc''" by (simp add: ustr_def)
  have b: "ustr ''x/report.docx'' \<noteq> ustr ''y/report.docx''" by (simp add: ustr_def)
  have c: "ustr ''report'' @ ustr ''_chunk_'' @ ustr ''0'' = ustr ''report_chunk_0''"
    by (simp add: ustr_def)
  show ?thesis
    by (simp only: a b generate_vector_id_def clean_name_report_docx clean_name_report_doc
          clean_name_x_report_docx clean_name_y_report_docx str_int_0 c not_False_eq_True simp_thms)
qed

text \<open>
  Claim C7 says that the empty source name fails with an invalid-input error.
  \<^verbatim>\<open>generate_vector_id\<close> has no \<^verbatim>\<open>raise\<close>: on the empty name it returns \<^verbatim>\<open>_chunk_0\<close>.
\<close>

theorem generate_vector_id_empty_source_returns:
  "generate_vector_id nfd_latin1 [] 0 = ustr ''_chunk_0''"
proof -
  have "clean_name nfd_latin1 [] = []"
    using clean_name_empty[of nfd_latin1] by (simp add: nfd_latin1_def)
  then show ?thesis
    by (simp add: generate_vector_id_def str_int_0) (simp add: ustr_def)
qed

text \<open>
  Claim C7, as the code has it: ID derivation has no invalid-input condition. For every
  source name, the empty one included, and every index, \<^verbatim>\<open>generate_vector_id\<close> returns an
  ID: a word over \<^verbatim>\<open>[A-Za-z0-9_]\<close>, which may be empty, followed by \<^verbatim>\<open>_chunk_\<close> and the
  decimal text of the index; the ID is therefore never empty. For the empty source name,
  whose normal form is empty, that word is empty and the ID is \<^verbatim>\<open>_chunk_\<close> followed by
  the index.
\<close>

theorem generate_vector_id_returns_for_every_source:
  "(\<exists>cleaned. generate_vector_id nfd p i = cleaned @ ustr ''_chunk_'' @ str_int i
       \<and> set cleaned \<subseteq> {c. isalnum c \<or> c = 95})
   \<and> generate_vector_id nfd p i \<noteq> []
   \<and> (nfd [] = [] \<longrightarrow> generate_vector_id nfd [] i = ustr ''_chunk_'' @ str_int i)"
proof -
  have a: "\<exists>cleaned. generate_vector_id nfd p i = cleaned @ ustr ''_chunk_'' @ str_int i
       \<and> set cleaned \<subseteq> {c. isalnum c \<or> c = 95}"
    using clean_name_chars[of nfd p] by (auto simp: generate_vector_id_def)
  have b: "generate_vector_id nfd p i \<noteq> []"
    by (simp add: generate_vector_id_def ustr_def)
  have c: "generate_vector_id nfd [] i = ustr ''_chunk_'' @ str_int i" if "nfd [] = []"
    using clean_name_empty[of nfd] that by (simp add: generate_vector_id_def)
  from a b c show ?thesis by blast
qed

theorem generate_vector_id_returns_for_every_source_witness:
  "nfd_latin1 [] = []
   \<and> generate_vector_id nfd_latin1 [] 1 = ustr ''_chunk_'' @ ustr ''1''
   \<and> generate_vector_id nfd_latin1 (ustr ''report.docx'') 1 \<noteq> []"
proof -
  note t = generate_vector_id_returns_for_every_source[where nfd = nfd_latin1 and i = 1]
  have n: "nfd_latin1 [] = []" by (simp add: nfd_latin1_def)
  from t[of "[]"] n have a: "generate_vector_id nfd_latin1 [] 1 = ustr ''_chunk_'' @ ustr ''1''"
    by (simp add: str_int_1)
  from t[of "ustr ''report.docx''"] have b: "generate_vector_id nfd_latin1 (ustr ''report.docx'') 1 \<noteq> []"
    by blast
  from n a b show ?thesis by blast
qed

text \<open>
  Claim C4 says that the empty string and a whitespace-only string fail with two
  different kinds of error. Both are refused by the same guard, with the same
  \<^verbatim>\<open>ValueError\<close> and the same message.
\<close>

theorem split_text_same_error_for_empty_and_blank:
  "split_text [] = Inl (ValueError (ustr ''Document text cannot be empty''))
   \<and> split_text (ustr ''   '') = Inl (ValueError (ustr ''Document text cannot be empty''))"
proof -
  have a: "split_text [] = Inl (ValueError (ustr ''Document text cannot be empty''))"
    by (simp add: split_text_def split_text_with_def)
  have "strip (ustr ''   '') = []" by (rule strip_blank)
  then have b: "split_text (ustr ''   '') = Inl (ValueError (ustr ''Document text cannot be empty''))"
    by (simp add: split_text_def split_text_with_def)
  from a b show ?thesis by simp
qed

text \<open>
  Claim C4, as the code has it: every text that is empty after trimming, the empty
  string included, is refused by the first check of \<^verbatim>\<open>split_text\<close> with the
  \<^verbatim>\<open>ValueError\<close> "Document text cannot be empty", whatever the splitter would do; the
  splitter is not reached.
\<close>

theorem split_text_rejects_blank:
  "strip document_text = [] \<Longrightarrow>
     split_text_with splitter document_text = Inl (ValueError (ustr ''Document text cannot be empty''))
     \<and> split_text document_text = Inl (ValueError (ustr ''Document text cannot be empty''))"
  by (simp add: split_text_def split_text_with_def)

theorem split_text_rejects_blank_witness:
  "strip (ustr ''   '') = []
   \<and> split_text_with (\<lambda>t. Inr [t]) (ustr ''   '') = Inl (ValueError (ustr ''Document text cannot be empty''))
   \<and> split_text (ustr ''   '') = Inl (ValueError (ustr ''Document text cannot be empty''))"
proof -
  have s: "strip (ustr ''   '') = []" by (rule strip_blank)
  show ?thesis using s split_text_rejects_blank[OF s, of "\<lambda>t. Inr [t]"] by simp
qed






text \<open>
  Claim C10 says that every line of every string \<^verbatim>\<open>read_document\<close> returns is trimmed
  and that no such string holds two consecutive newlines. \<^verbatim>\<open>read_document\<close> trims each
  paragraph text as a whole and looks no further into it, and the text of a paragraph
  holds a newline for each line break inside the paragraph. A document whose one
  paragraph is \<^verbatim>\<open>a\<close>, two line breaks, \<^verbatim>\<open>b\<close> is returned as it is, with \<^verbatim>\<open>\n\n\<close> in it; a
  document whose one paragraph is \<^verbatim>\<open>a\<close>, a space, a line break, \<^verbatim>\<open>b\<close> is returned with
  the line \<^verbatim>\<open>a\<close>-space, which is not trimmed.
\<close>

theorem read_document_keeps_inner_line_breaks:
  "read_document True (Inr [[97, 10, 10, 98]]) (ustr ''a.docx'') = Inr [97, 10, 10, 98]
   \<and> occurs [10, 10] [97, 10, 10, 98]
   \<and> read_document True (Inr [[97, 32, 10, 98]]) (ustr ''a.docx'') = Inr [97, 32, 10, 98]
   \<and> split [10] [97, 32, 10, 98] = [[97, 32], [98]]
   \<and> strip [97, 32] \<noteq> [97, 32]"
  by (simp add: read_document_def strip_def isspace_def startswith_def)

text \<open>
  Claim C10, as the code has it. Every string \<^verbatim>\<open>read_document\<close> returns is non-empty
  after trimming, and it is the trimmed texts of the paragraphs, without the empty ones,
  joined by newlines. When no paragraph text holds a newline (no paragraph has a line
  break inside), every line of the result is non-empty and trimmed, and the separator
  \<^verbatim>\<open>\n\n\<close> does not occur in it.
\<close>

theorem read_document_lines_trimmed:
  assumes "read_document file_exists document file_path = Inr full_text"
  shows "strip full_text \<noteq> []
         \<and> (\<exists>paragraphs. document = Inr paragraphs
               \<and> full_text = join [10] (filter (\<lambda>text. text \<noteq> []) (map strip paragraphs))
               \<and> ((\<forall>p \<in> set paragraphs. 10 \<notin> set p) \<longrightarrow>
                    (\<forall>line \<in> set (split [10] full_text). line \<noteq> [] \<and> strip line = line)
                    \<and> \<not> occurs [10, 10] full_text))"
proof -
  from assms obtain paragraphs where d: "document = Inr paragraphs"
    and f0: "full_text = join [10] (filter (\<lambda>text. text \<noteq> []) (map strip paragraphs))"
    and n: "strip full_text \<noteq> []"
    unfolding read_document_Inr_iff by blast
  define text_content where "text_content = filter (\<lambda>text. text \<noteq> []) (map strip paragraphs)"
  have f: "full_text = join [10] text_content"
    by (simp add: f0 text_content_def)
  have ne: "text_content \<noteq> []"
  proof
    assume "text_content = []"
    then have "strip full_text = []" by (simp add: f strip_def)
    with n show False by simp
  qed
  have t: "(\<forall>line \<in> set (split [10] full_text). line \<noteq> [] \<and> strip line = line)
           \<and> \<not> occurs [10, 10] full_text" if h: "\<forall>p \<in> set paragraphs. 10 \<notin> set p"
  proof -
    have c: "\<forall>p \<in> set text_content. p \<noteq> [] \<and> 10 \<notin> set p \<and> strip p = p"
    proof
      fix p assume "p \<in> set text_content"
      then obtain q where q: "q \<in> set paragraphs" "p = strip q" "p \<noteq> []"
        by (auto simp: text_content_def)
      from q(1) h have "10 \<notin> set q" by simp
      then have "10 \<notin> set p" using set_strip[of q] q(2) by blast
      then show "p \<noteq> [] \<and> 10 \<notin> set p \<and> strip p = p"
        using q by (simp add: strip_strip)
    qed
    then have "split [10] full_text = text_content"
      using ne by (simp add: f split_join_lines)
    moreover have "\<not> occurs [10, 10] full_text"
      using c by (simp add: f no_double_sep_in_join)
    ultimately show ?thesis using c by simp
  qed
  from d f0 n t show ?thesis by blast
qed

text \<open>The document of \<open>example_env\<close>: three paragraphs, the second of them blank.\<close>

theorem read_document_lines_trimmed_witness:
  "read_document True (Inr [ustr '' Hello '', ustr ''  '', ustr ''World'']) (ustr ''a.docx'') = Inr hello_world
   \<and> strip hello_world \<noteq> []
   \<and> hello_world = join [10] (filter (\<lambda>text. text \<noteq> []) (map strip [ustr '' Hello '', ustr ''  '', ustr ''World'']))
   \<and> split [10] hello_world = [ustr ''Hello'', ustr ''World'']
   \<and> strip (ustr ''Hello'') = ustr ''Hello''
   \<and> \<not> occurs [10, 10] hello_world"
proof -
  note r = read_document_example
  note t = read_document_lines_trimmed[OF r]
  have p: "\<forall>p \<in> set [ustr '' Hello '', ustr ''  '', ustr ''World'']. 10 \<notin> set p"
    by (simp add: ustr_def)
  have s: "split [10] hello_world = [ustr ''Hello'', ustr ''World'']"
    by (simp add: hello_world_def ustr_def startswith_def)
  from t have a: "strip hello_world \<noteq> []" by blast
  from t have b: "hello_world = join [10] (filter (\<lambda>text. text \<noteq> []) (map strip [ustr '' Hello '', ustr ''  '', ustr ''World'']))"
    by blast
  from t p have l: "\<forall>line \<in> set (split [10] hello_world). line \<noteq> [] \<and> strip line = line"
    by blast
  then have c: "strip (ustr ''Hello'') = ustr ''Hello''" by (simp add: s)
  from t p have d: "\<not> occurs [10, 10] hello_world" by blast
  from r a b s c d show ?thesis by blast
qed

end
